theory Spec2Isabelle
  imports Main "HOL-Library.AList"
begin

section \<open>The page environment\<close>

text \<open>
  The content script works on objects of the page: owners of listeners (DOM elements),
  observers, function objects and timer handles. JavaScript compares all of them by
  identity, so each is modelled by a number that stands for the identity of the object.
  \<open>Bound k f\<close> is the function object that the \<open>k\<close>-th call of \<open>f.bind(this)\<close>
  creates: a new object, different from \<open>f\<close> and from every earlier one.
\<close>

datatype elem = Element nat

datatype observer = Observer nat

datatype func = Fn nat | Bound nat func

datatype js_options = Options nat

datatype js_error = Error string | TypeError string

datatype js_value = JNull | JUndefined | JString string | JErrorObject string | JObject

datatype log_arg = Text string | Num nat | Exn js_error | Val js_value

record report =
  action :: string
  error :: string
  timestamp :: nat
  url :: string

text \<open>
  Every call that leaves the script is written to a trace, in the order in which the
  script makes it. A call that throws is still in the trace: it was made.
\<close>

datatype effect =
    AddEventListenerCall elem string func js_options
  | RemoveEventListenerCall elem string func js_options
  | NewObserverCall nat func js_options
  | DisconnectCall observer
  | SetTimeoutCall nat nat
  | SetIntervalCall nat nat
  | ClearTimeoutCall nat
  | ClearIntervalCall nat
  | CallbackCall func
  | SendMessageCall report
  | ConsoleWarn string js_error
  | ConsoleError string js_error
  | ConsoleLog "log_arg list"

text \<open>
  The calls that the script, or code of the page, makes on the registry, one item at a
  time (\<open>cleanupAll\<close> is not among them).
\<close>

datatype call =
    AddEventListener elem string func js_options
  | RemoveEventListener elem string func
  | CreateObserver nat func js_options
  | SetTimeout func nat
  | SetInterval func nat
  | ClearTimeout nat
  | ClearInterval nat
  | AddCleanupCallback func
  | RemoveCleanupCallback func
  | GetMemoryUsage

text \<open>
  What the page answers is not in the source, so it is a parameter: \<open>throws env c\<close> is
  the exception that the call \<open>c\<close> raises, if it raises one; \<open>date_now\<close> is what
  \<open>Date.now()\<close> returns and \<open>location_href\<close> is \<open>window.location.href\<close>.
  A detach, a disconnect, a clear or a cleanup callback that \<open>cleanupAll\<close> calls is code
  of the page, and it may call the registry itself before it returns or throws:
  \<open>reenters env c\<close> are the calls on the registry that the page makes while it runs
  \<open>c\<close>, in their order. The other methods take the calls into the page as opaque.
\<close>

record env =
  throws :: "effect \<Rightarrow> js_error option"
  reenters :: "effect \<Rightarrow> call list"
  date_now :: nat
  location_href :: string

section \<open>Logging\<close>

definition CONTENT_DEBUG :: bool where
  "CONTENT_DEBUG = False"

text \<open>
  \<open>log\<close> writes to the console when the flag is set. \<open>log_when\<close> is its body with the
  flag as a parameter.
\<close>

definition log_when :: "bool \<Rightarrow> log_arg list \<Rightarrow> effect list" where
  "log_when debug args = (if debug then [ConsoleLog (Text ''STEPTWO Content:'' # args)] else [])"

definition log :: "log_arg list \<Rightarrow> effect list" where
  "log args = log_when CONTENT_DEBUG args"

section \<open>MemoryManager\<close>

text \<open>
  A JavaScript \<open>Map\<close> and \<open>Set\<close> iterate in insertion order, so a \<open>Map\<close> is an
  association list (\<open>AList.update\<close> replaces the value of a key where it stands and puts
  a new key at the end, as \<open>Map.set\<close> does) and a \<open>Set\<close> is a list without repetition.
\<close>

definition js_set_add :: "'a list \<Rightarrow> 'a \<Rightarrow> 'a list" where
  "js_set_add xs x = (if x \<in> set xs then xs else xs @ [x])"

definition js_set_delete :: "'a list \<Rightarrow> 'a \<Rightarrow> 'a list" where
  "js_set_delete xs x = removeAll x xs"

record listenerInfo =
  event :: string
  handler :: func
  originalHandler :: func
  options :: js_options
  element :: elem

record MemoryManager =
  eventListeners :: "(elem \<times> listenerInfo list) list"
  timers :: "nat list"
  observers :: "observer list"
  intervals :: "nat list"
  timeouts :: "nat list"
  references :: "(elem \<times> nat) list"
  cleanupCallbacks :: "func list"

definition MemoryManager_new :: MemoryManager where
  "MemoryManager_new =
     \<lparr>eventListeners = [], timers = [], observers = [], intervals = [], timeouts = [],
      references = [], cleanupCallbacks = []\<rparr>"

text \<open>
  The timers of the page: a one-shot timer created by \<open>MemoryManager.setTimeout\<close> runs
  the closure of that method, which holds the handle and the callback; a repeating timer
  runs the callback itself; the timer of \<open>safeContentExecute\<close> rejects the promise of
  that call.
\<close>

datatype task = TimeoutTask nat func | IntervalTask func | GuardTask

record world =
  memoryManager :: MemoryManager
  next_object :: nat
  next_timer :: nat
  pending :: "nat \<Rightarrow> task option"

definition initial_world :: world where
  "initial_world =
     \<lparr>memoryManager = MemoryManager_new, next_object = 0, next_timer = 1,
      pending = (\<lambda>_. None)\<rparr>"

type_synonym 'a outcome = "(js_error + 'a) \<times> world \<times> effect list"

definition addEventListener ::
  "env \<Rightarrow> elem \<Rightarrow> string \<Rightarrow> func \<Rightarrow> js_options \<Rightarrow> world \<Rightarrow> func outcome" where
  "addEventListener env el ev h opt w =
     (let boundHandler = Bound (next_object w) h;
          m = memoryManager w;
          listeners = (case map_of (eventListeners m) el of None \<Rightarrow> [] | Some ls \<Rightarrow> ls);
          info = \<lparr>event = ev, handler = boundHandler, originalHandler = h,
                  options = opt, element = el\<rparr>;
          w' = w\<lparr>memoryManager :=
                    m\<lparr>eventListeners := AList.update el (listeners @ [info]) (eventListeners m)\<rparr>,
                  next_object := Suc (next_object w)\<rparr>;
          call = AddEventListenerCall el ev boundHandler opt
      in (case throws env call of None \<Rightarrow> Inr boundHandler | Some e \<Rightarrow> Inl e, w', [call]))"

definition find_listener :: "string \<Rightarrow> func \<Rightarrow> listenerInfo list \<Rightarrow> listenerInfo option" where
  "find_listener ev h listeners =
     find (\<lambda>l. event l = ev \<and> (handler l = h \<or> originalHandler l = h)) listeners"

definition removeEventListener ::
  "env \<Rightarrow> elem \<Rightarrow> string \<Rightarrow> func \<Rightarrow> world \<Rightarrow> unit outcome" where
  "removeEventListener env el ev h w =
     (let m = memoryManager w in
      case map_of (eventListeners m) el of
        None \<Rightarrow> (Inr (), w, [])
      | Some listeners \<Rightarrow>
          (case find_listener ev h listeners of
             None \<Rightarrow> (Inr (), w, [])
           | Some listenerToRemove \<Rightarrow>
               (let call = RemoveEventListenerCall el ev (handler listenerToRemove)
                             (options listenerToRemove)
                in case throws env call of
                     Some e \<Rightarrow> (Inl e, w, [call])
                   | None \<Rightarrow>
                       (let listeners' = remove1 listenerToRemove listeners;
                            els = (if length listeners' = 0
                                   then AList.delete el (eventListeners m)
                                   else AList.update el listeners' (eventListeners m))
                        in (Inr (), w\<lparr>memoryManager := m\<lparr>eventListeners := els\<rparr>\<rparr>, [call])))))"

definition createObserver ::
  "env \<Rightarrow> nat \<Rightarrow> func \<Rightarrow> js_options \<Rightarrow> world \<Rightarrow> observer outcome" where
  "createObserver env observerClass callback opt w =
     (let call = NewObserverCall observerClass callback opt in
      case throws env call of
        Some e \<Rightarrow> (Inl e, w, [call])
      | None \<Rightarrow>
          (let obs = Observer (next_object w);
               m = memoryManager w
           in (Inr obs,
               w\<lparr>memoryManager := m\<lparr>observers := js_set_add (observers m) obs\<rparr>,
                 next_object := Suc (next_object w)\<rparr>,
               [call])))"

definition setTimeout :: "env \<Rightarrow> func \<Rightarrow> nat \<Rightarrow> world \<Rightarrow> nat outcome" where
  "setTimeout env callback delay w =
     (let timeoutId = next_timer w;
          m = memoryManager w
      in (Inr timeoutId,
          w\<lparr>memoryManager := m\<lparr>timeouts := js_set_add (timeouts m) timeoutId\<rparr>,
            next_timer := Suc (next_timer w),
            pending := (pending w)(timeoutId \<mapsto> TimeoutTask timeoutId callback)\<rparr>,
          [SetTimeoutCall timeoutId delay]))"

definition setInterval :: "env \<Rightarrow> func \<Rightarrow> nat \<Rightarrow> world \<Rightarrow> nat outcome" where
  "setInterval env callback delay w =
     (let intervalId = next_timer w;
          m = memoryManager w
      in (Inr intervalId,
          w\<lparr>memoryManager := m\<lparr>intervals := js_set_add (intervals m) intervalId\<rparr>,
            next_timer := Suc (next_timer w),
            pending := (pending w)(intervalId \<mapsto> IntervalTask callback)\<rparr>,
          [SetIntervalCall intervalId delay]))"

definition clearTimeout :: "env \<Rightarrow> nat \<Rightarrow> world \<Rightarrow> unit outcome" where
  "clearTimeout env timeoutId w =
     (let m = memoryManager w in
      if timeoutId \<in> set (timeouts m) then
        (let call = ClearTimeoutCall timeoutId in
         case throws env call of
           Some e \<Rightarrow> (Inl e, w, [call])
         | None \<Rightarrow>
             (Inr (),
              w\<lparr>memoryManager := m\<lparr>timeouts := js_set_delete (timeouts m) timeoutId\<rparr>,
                pending := (pending w)(timeoutId := None)\<rparr>,
              [call]))
      else (Inr (), w, []))"

definition clearInterval :: "env \<Rightarrow> nat \<Rightarrow> world \<Rightarrow> unit outcome" where
  "clearInterval env intervalId w =
     (let m = memoryManager w in
      if intervalId \<in> set (intervals m) then
        (let call = ClearIntervalCall intervalId in
         case throws env call of
           Some e \<Rightarrow> (Inl e, w, [call])
         | None \<Rightarrow>
             (Inr (),
              w\<lparr>memoryManager := m\<lparr>intervals := js_set_delete (intervals m) intervalId\<rparr>,
                pending := (pending w)(intervalId := None)\<rparr>,
              [call]))
      else (Inr (), w, []))"

definition addCleanupCallback :: "func \<Rightarrow> world \<Rightarrow> unit outcome" where
  "addCleanupCallback callback w =
     (let m = memoryManager w
      in (Inr (),
          w\<lparr>memoryManager := m\<lparr>cleanupCallbacks := js_set_add (cleanupCallbacks m) callback\<rparr>\<rparr>,
          []))"

definition removeCleanupCallback :: "func \<Rightarrow> world \<Rightarrow> unit outcome" where
  "removeCleanupCallback callback w =
     (let m = memoryManager w
      in (Inr (),
          w\<lparr>memoryManager := m\<lparr>cleanupCallbacks := js_set_delete (cleanupCallbacks m) callback\<rparr>\<rparr>,
          []))"

record memoryUsage =
  usage_eventListeners :: nat
  usage_observers :: nat
  usage_timeouts :: nat
  usage_intervals :: nat
  usage_cleanupCallbacks :: nat

definition getMemoryUsage :: "world \<Rightarrow> memoryUsage outcome" where
  "getMemoryUsage w =
     (let m = memoryManager w
      in (Inr \<lparr>usage_eventListeners = length (eventListeners m),
                usage_observers = length (observers m),
                usage_timeouts = length (timeouts m),
                usage_intervals = length (intervals m),
                usage_cleanupCallbacks = length (cleanupCallbacks m)\<rparr>,
          w, []))"

subsection \<open>One call on the registry\<close>

fun step :: "env \<Rightarrow> call \<Rightarrow> world \<Rightarrow> world \<times> effect list" where
  "step env (AddEventListener el ev h opt) w = snd (addEventListener env el ev h opt w)"
| "step env (RemoveEventListener el ev h) w = snd (removeEventListener env el ev h w)"
| "step env (CreateObserver c cb opt) w = snd (createObserver env c cb opt w)"
| "step env (SetTimeout cb d) w = snd (setTimeout env cb d w)"
| "step env (SetInterval cb d) w = snd (setInterval env cb d w)"
| "step env (ClearTimeout i) w = snd (clearTimeout env i w)"
| "step env (ClearInterval i) w = snd (clearInterval env i w)"
| "step env (AddCleanupCallback cb) w = snd (addCleanupCallback cb w)"
| "step env (RemoveCleanupCallback cb) w = snd (removeCleanupCallback cb w)"
| "step env GetMemoryUsage w = snd (getMemoryUsage w)"

definition tracked_listeners :: "world \<Rightarrow> elem \<Rightarrow> listenerInfo list" where
  "tracked_listeners w el =
     (case map_of (eventListeners (memoryManager w)) el of None \<Rightarrow> [] | Some ls \<Rightarrow> ls)"

definition has_entry :: "world \<Rightarrow> elem \<Rightarrow> bool" where
  "has_entry w el = (map_of (eventListeners (memoryManager w)) el \<noteq> None)"

definition owners :: "world \<Rightarrow> elem list" where
  "owners w = map fst (eventListeners (memoryManager w))"

subsection \<open>cleanupAll\<close>

text \<open>
  \<open>for (const x of collection)\<close> walks the collection while it lives: an item that is
  deleted before its turn is skipped, an item that is added during the walk is visited
  at the end, also when it had been visited and deleted before. The walk is modelled by
  the items still to visit. When one call on the registry has changed the collection
  from \<open>before\<close> to \<open>after\<close>, the items that are gone leave the walk and the new items
  join it at the end.
\<close>

definition advance :: "'a list \<Rightarrow> 'a list \<Rightarrow> 'a list \<Rightarrow> 'a list" where
  "advance before after remaining =
     filter (\<lambda>x. x \<in> set after) remaining @ filter (\<lambda>x. x \<notin> set before) after"

text \<open>
  The calls on the registry that the page makes during one teardown call, each followed
  by the update \<open>track\<close> of the walk that is under way.
\<close>

fun react ::
  "env \<Rightarrow> (world \<Rightarrow> world \<Rightarrow> 'it \<Rightarrow> 'it) \<Rightarrow> call list \<Rightarrow> world \<Rightarrow> 'it \<Rightarrow> world \<times> 'it \<times> effect list" where
  "react env track [] w it = (w, it, [])"
| "react env track (c # cs) w it =
     (case step env c w of
        (w1, e1) \<Rightarrow>
          (case react env track cs w1 (track w w1 it) of
             (w2, it2, e2) \<Rightarrow> (w2, it2, e1 @ e2)))"

text \<open>
  What the teardown call does to the page itself: a clear call that returns takes the
  timer from the timers of the page; one that throws leaves it there.
\<close>

fun page_effect :: "env \<Rightarrow> effect \<Rightarrow> world \<Rightarrow> world" where
  "page_effect env (ClearTimeoutCall i) w =
     (if throws env (ClearTimeoutCall i) = None then w\<lparr>pending := (pending w)(i := None)\<rparr>
      else w)"
| "page_effect env (ClearIntervalCall i) w =
     (if throws env (ClearIntervalCall i) = None then w\<lparr>pending := (pending w)(i := None)\<rparr>
      else w)"
| "page_effect env _ w = w"

text \<open>
  The body of each \<open>try\<close>/\<open>catch\<close> in \<open>cleanupAll\<close>: the call is made; the page runs
  it, with its calls on the registry; if it throws, the exception is caught and
  \<open>console.warn\<close> is called with the message of that loop.
\<close>

definition try_call ::
  "env \<Rightarrow> string \<Rightarrow> (world \<Rightarrow> world \<Rightarrow> 'it \<Rightarrow> 'it) \<Rightarrow> effect \<Rightarrow> world \<Rightarrow> 'it \<Rightarrow> world \<times> 'it \<times> effect list" where
  "try_call env msg track call w it =
     (case react env track (reenters env call) (page_effect env call w) it of
        (w1, it1, e1) \<Rightarrow>
          (w1, it1,
           [call] @ e1 @
           (case throws env call of None \<Rightarrow> [] | Some e \<Rightarrow> [ConsoleWarn msg e])))"

text \<open>
  A loop over one \<open>Set\<close>. A walk that gets new items for ever does not end: \<open>n\<close> bounds
  the number of items visited, and \<open>None\<close> says that the loop has not ended within it.
\<close>

fun release_each ::
  "nat \<Rightarrow> env \<Rightarrow> string \<Rightarrow> ('a \<Rightarrow> effect) \<Rightarrow> (world \<Rightarrow> 'a list) \<Rightarrow> 'a list \<Rightarrow> world \<Rightarrow> (world \<times> effect list) option" where
  "release_each n env msg call_of view [] w = Some (w, [])"
| "release_each 0 env msg call_of view (x # remaining) w = None"
| "release_each (Suc n) env msg call_of view (x # remaining) w =
     (case try_call env msg (\<lambda>w w'. advance (view w) (view w')) (call_of x) w remaining of
        (w1, remaining1, e1) \<Rightarrow>
          (case release_each n env msg call_of view remaining1 w1 of
             None \<Rightarrow> None
           | Some (w2, e2) \<Rightarrow> Some (w2, e1 @ e2)))"

text \<open>
  The first loop walks the \<open>Map\<close> of owners and, for each owner, the \<open>Set\<close> of its
  listeners. \<open>removeEventListener\<close> deletes the key of an owner when its set has become
  empty, and \<open>addEventListener\<close> then makes a new set under a new key at the end of the
  map: the inner walk is over the old set, which stays empty (\<open>None\<close> below), and the
  outer walk comes to the new key later.
\<close>

definition track_listeners ::
  "elem \<Rightarrow> world \<Rightarrow> world \<Rightarrow> elem list \<times> listenerInfo list option \<Rightarrow> elem list \<times> listenerInfo list option" where
  "track_listeners el w w' it =
     (case it of
        (els, ls) \<Rightarrow>
          (advance (owners w) (owners w') els,
           case ls of
             None \<Rightarrow> None
           | Some remaining \<Rightarrow>
               if el \<in> set (owners w')
               then Some (advance (tracked_listeners w el) (tracked_listeners w' el) remaining)
               else None))"

fun release_listeners ::
  "nat \<Rightarrow> env \<Rightarrow> elem \<Rightarrow> elem list \<times> listenerInfo list option \<Rightarrow> world \<Rightarrow> (world \<times> elem list \<times> effect list) option" where
  "release_listeners n env el (els, None) w = Some (w, els, [])"
| "release_listeners n env el (els, Some []) w = Some (w, els, [])"
| "release_listeners 0 env el (els, Some (listener # ls)) w = None"
| "release_listeners (Suc n) env el (els, Some (listener # ls)) w =
     (case try_call env ''Error removing event listener:'' (track_listeners el)
             (RemoveEventListenerCall el (event listener) (handler listener) (options listener))
             w (els, Some ls) of
        (w1, it1, e1) \<Rightarrow>
          (case release_listeners n env el it1 w1 of
             None \<Rightarrow> None
           | Some (w2, els2, e2) \<Rightarrow> Some (w2, els2, e1 @ e2)))"

fun release_owners ::
  "nat \<Rightarrow> nat \<Rightarrow> env \<Rightarrow> elem list \<Rightarrow> world \<Rightarrow> (world \<times> effect list) option" where
  "release_owners n k env [] w = Some (w, [])"
| "release_owners 0 k env (el # els) w = None"
| "release_owners (Suc n) k env (el # els) w =
     (case release_listeners k env el (els, Some (tracked_listeners w el)) w of
        None \<Rightarrow> None
      | Some (w1, els1, e1) \<Rightarrow>
          (case release_owners n k env els1 w1 of
             None \<Rightarrow> None
           | Some (w2, e2) \<Rightarrow> Some (w2, e1 @ e2)))"

text \<open>
  \<open>cleanupAll\<close>: each loop is followed by the \<open>clear()\<close> of its collection. \<open>fuel\<close>
  bounds the items that each loop visits; the result is \<open>None\<close> when a loop has not
  ended within it.
\<close>

definition clear_eventListeners :: "world \<Rightarrow> world" where
  "clear_eventListeners w = w\<lparr>memoryManager := (memoryManager w)\<lparr>eventListeners := []\<rparr>\<rparr>"

definition clear_observers :: "world \<Rightarrow> world" where
  "clear_observers w = w\<lparr>memoryManager := (memoryManager w)\<lparr>observers := []\<rparr>\<rparr>"

definition clear_timeouts :: "world \<Rightarrow> world" where
  "clear_timeouts w = w\<lparr>memoryManager := (memoryManager w)\<lparr>timeouts := []\<rparr>\<rparr>"

definition clear_intervals :: "world \<Rightarrow> world" where
  "clear_intervals w = w\<lparr>memoryManager := (memoryManager w)\<lparr>intervals := []\<rparr>\<rparr>"

definition clear_cleanupCallbacks :: "world \<Rightarrow> world" where
  "clear_cleanupCallbacks w = w\<lparr>memoryManager := (memoryManager w)\<lparr>cleanupCallbacks := []\<rparr>\<rparr>"

definition cleanupAll :: "nat \<Rightarrow> env \<Rightarrow> world \<Rightarrow> unit outcome option" where
  "cleanupAll fuel env w =
     (case release_owners fuel fuel env (owners w) w of
        None \<Rightarrow> None
      | Some (w1, e1) \<Rightarrow>
     (case release_each fuel env ''Error disconnecting observer:'' DisconnectCall
             (\<lambda>w. observers (memoryManager w))
             (observers (memoryManager (clear_eventListeners w1))) (clear_eventListeners w1) of
        None \<Rightarrow> None
      | Some (w2, e2) \<Rightarrow>
     (case release_each fuel env ''Error clearing timeout:'' ClearTimeoutCall
             (\<lambda>w. timeouts (memoryManager w))
             (timeouts (memoryManager (clear_observers w2))) (clear_observers w2) of
        None \<Rightarrow> None
      | Some (w3, e3) \<Rightarrow>
     (case release_each fuel env ''Error clearing interval:'' ClearIntervalCall
             (\<lambda>w. intervals (memoryManager w))
             (intervals (memoryManager (clear_timeouts w3))) (clear_timeouts w3) of
        None \<Rightarrow> None
      | Some (w4, e4) \<Rightarrow>
     (case release_each fuel env ''Error in cleanup callback:'' CallbackCall
             (\<lambda>w. cleanupCallbacks (memoryManager w))
             (cleanupCallbacks (memoryManager (clear_intervals w4))) (clear_intervals w4) of
        None \<Rightarrow> None
      | Some (w5, e5) \<Rightarrow>
          Some (Inr (), clear_cleanupCallbacks w5,
                e1 @ e2 @ e3 @ e4 @ e5 @ log [Text ''Memory cleanup completed'']))))))"

subsection \<open>Timers that fire\<close>

text \<open>
  The page fires the timer with handle \<open>i\<close>. A one-shot timer is gone from the page
  after it has fired, and what runs is the closure of \<open>MemoryManager.setTimeout\<close>:
  \<open>this.timeouts.delete(timeoutId); callback()\<close>. A repeating timer stays, and what
  runs is the callback. The timer of \<open>safeContentExecute\<close> rejects a promise, which
  leaves the registry as it is.
\<close>

definition fire :: "nat \<Rightarrow> world \<Rightarrow> world \<times> effect list" where
  "fire i w =
     (case pending w i of
        None \<Rightarrow> (w, [])
      | Some (TimeoutTask timeoutId callback) \<Rightarrow>
          (let m = memoryManager w
           in (w\<lparr>memoryManager := m\<lparr>timeouts := js_set_delete (timeouts m) timeoutId\<rparr>,
                 pending := (pending w)(i := None)\<rparr>,
               [CallbackCall callback]))
      | Some (IntervalTask callback) \<Rightarrow> (w, [CallbackCall callback])
      | Some GuardTask \<Rightarrow> (w\<lparr>pending := (pending w)(i := None)\<rparr>, []))"

subsection \<open>Sequences\<close>

text \<open>
  What happens on the page, one thing after the other: a call on the registry, a
  \<open>cleanupAll\<close>, a timer that fires. A sequence ends in \<open>None\<close> when a \<open>cleanupAll\<close> in
  it has not returned.
\<close>

datatype action = Call call | CleanupAll | Fire nat

fun perform :: "nat \<Rightarrow> env \<Rightarrow> action \<Rightarrow> world \<Rightarrow> (world \<times> effect list) option" where
  "perform fuel env (Call c) w = Some (step env c w)"
| "perform fuel env CleanupAll w = map_option snd (cleanupAll fuel env w)"
| "perform fuel env (Fire i) w = Some (fire i w)"

fun run :: "nat \<Rightarrow> env \<Rightarrow> action list \<Rightarrow> world \<Rightarrow> world option" where
  "run fuel env [] w = Some w"
| "run fuel env (a # as) w =
     (case perform fuel env a w of
        None \<Rightarrow> None
      | Some (w1, e1) \<Rightarrow> run fuel env as w1)"

section \<open>Error relay\<close>

definition handleScrapingError :: "env \<Rightarrow> string \<Rightarrow> (js_error + unit) \<times> effect list" where
  "handleScrapingError env message =
     (let call = SendMessageCall
                   \<lparr>action = ''contentScriptError'', error = message,
                    timestamp = date_now env, url = location_href env\<rparr>
      in case throws env call of
           None \<Rightarrow> (Inr (), [call])
         | Some e \<Rightarrow> (Inr (), [call, ConsoleError ''Failed to send error to background:'' e]))"

text \<open>
  \<open>get_message v\<close> is the property access \<open>v.message\<close>: a \<open>TypeError\<close> on \<open>null\<close> and
  \<open>undefined\<close>, the message of an \<open>Error\<close> object, \<open>undefined\<close> on a value that has
  no such property. \<open>to_string\<close> is the conversion that a template literal applies.
\<close>

fun get_message :: "js_value \<Rightarrow> js_error + js_value" where
  "get_message JNull = Inl (TypeError ''Cannot read properties of null (reading message)'')"
| "get_message JUndefined =
     Inl (TypeError ''Cannot read properties of undefined (reading message)'')"
| "get_message (JString s) = Inr JUndefined"
| "get_message (JErrorObject msg) = Inr (JString msg)"
| "get_message JObject = Inr JUndefined"

fun to_string :: "js_value \<Rightarrow> string" where
  "to_string JNull = ''null''"
| "to_string JUndefined = ''undefined''"
| "to_string (JString s) = s"
| "to_string (JErrorObject msg) = ''Error: '' @ msg"
| "to_string JObject = ''[object Object]''"

text \<open>The two listeners on \<open>window\<close>; the argument is \<open>event.error\<close>, or \<open>event.reason\<close>.\<close>

definition window_error_listener ::
  "env \<Rightarrow> js_value \<Rightarrow> (js_error + unit) \<times> effect list" where
  "window_error_listener env event_error =
     (let e0 = log [Text ''Global error in content script:'', Val event_error] in
      case get_message event_error of
        Inl exn \<Rightarrow> (Inl exn, e0)
      | Inr msg \<Rightarrow>
          (case handleScrapingError env (''Global error: '' @ to_string msg) of
             (r, e1) \<Rightarrow> (r, e0 @ e1)))"

definition window_unhandledrejection_listener ::
  "env \<Rightarrow> js_value \<Rightarrow> (js_error + unit) \<times> effect list" where
  "window_unhandledrejection_listener env event_reason =
     (let e0 = log [Text ''Unhandled promise rejection in content script:'', Val event_reason] in
      case handleScrapingError env (''Unhandled promise rejection: '' @ to_string event_reason) of
        (r, e1) \<Rightarrow> (r, e0 @ e1))"

section \<open>safeContentExecute\<close>

text \<open>
  One call of the function that \<open>safeContentExecute(fn, context)\<close> returns. Times are
  in milliseconds since \<open>startTime\<close>. The call of \<open>fn(...args)\<close> runs for \<open>d\<close>
  milliseconds and then throws or returns a promise (a value that is no promise is a
  promise that is fulfilled already). A promise is modelled by when and how it settles:
  \<open>Some (t, s)\<close> settles at \<open>t\<close>, \<open>None\<close> never settles; a promise that was settled
  before \<open>fn\<close> returned counts from the return. Only after \<open>fn\<close> has returned is the
  timer set, so it fires at \<open>d + MAX_EXECUTION_TIME\<close>. \<open>Promise_race\<close> settles as the
  promise that settles first; of two that settle at the same time the first of the array
  is taken. The flag that \<open>log\<close> reads is the parameter \<open>debug\<close>; the source sets it to
  \<open>CONTENT_DEBUG\<close>.
\<close>

datatype 'a settlement = Fulfilled 'a | Rejected js_error

type_synonym 'a promise = "(nat \<times> 'a settlement) option"

datatype 'a fn_result = FnThrows nat js_error | FnReturns nat "'a promise"

definition MAX_EXECUTION_TIME :: nat where
  "MAX_EXECUTION_TIME = 30000"

fun Promise_race :: "'a promise \<Rightarrow> 'a promise \<Rightarrow> 'a promise" where
  "Promise_race None q = q"
| "Promise_race (Some p) None = Some p"
| "Promise_race (Some (t1, s1)) (Some (t2, s2)) =
     (if t1 \<le> t2 then Some (t1, s1) else Some (t2, s2))"

definition seen_from :: "nat \<Rightarrow> 'a promise \<Rightarrow> 'a promise" where
  "seen_from d p = map_option (\<lambda>(t, s). (max d t, s)) p"

definition timeout_promise :: "nat \<Rightarrow> 'a promise" where
  "timeout_promise d = Some (d + MAX_EXECUTION_TIME, Rejected (Error ''Execution timeout''))"

definition slow_note :: "string \<Rightarrow> nat \<Rightarrow> log_arg list" where
  "slow_note label executionTime =
     [Text ''Slow execution in '', Text label, Text '': '', Num executionTime, Text ''ms'']"

definition error_note :: "string \<Rightarrow> js_error \<Rightarrow> log_arg list" where
  "error_note label err = [Text ''Error in '', Text label, Text '':'', Exn err]"

definition safeContentExecute ::
  "bool \<Rightarrow> 'a fn_result \<Rightarrow> string \<Rightarrow> world \<Rightarrow> 'a promise \<times> world \<times> effect list" where
  "safeContentExecute debug fn label w =
     (case fn of
        FnThrows d err \<Rightarrow> (Some (d, Rejected err), w, log_when debug (error_note label err))
      | FnReturns d p \<Rightarrow>
          (let timerId = next_timer w;
               w' = w\<lparr>next_timer := Suc (next_timer w),
                      pending := (pending w)(timerId \<mapsto> GuardTask)\<rparr>;
               timer = [SetTimeoutCall timerId MAX_EXECUTION_TIME]
           in case Promise_race (seen_from d p) (timeout_promise d) of
                None \<Rightarrow> (None, w', timer)
              | Some (t, Fulfilled result) \<Rightarrow>
                  (let executionTime = t
                   in (Some (t, Fulfilled result), w',
                       timer @ (if executionTime > 5000
                                then log_when debug (slow_note label executionTime)
                                else [])))
              | Some (t, Rejected err) \<Rightarrow>
                  (Some (t, Rejected err), w', timer @ log_when debug (error_note label err))))"

section \<open>What the specification names\<close>

definition result_of :: "'a outcome \<Rightarrow> js_error + 'a" where
  "result_of x = fst x"

definition world_of :: "'a outcome \<Rightarrow> world" where
  "world_of x = fst (snd x)"

definition effects_of :: "'a outcome \<Rightarrow> effect list" where
  "effects_of x = snd (snd x)"

text \<open>
  The order of release as the specification gives it: every tracked listener, every
  observer, every one-shot timer, every repeating timer, every cleanup callback.
\<close>

definition release_order :: "MemoryManager \<Rightarrow> effect list" where
  "release_order m =
     concat (map (\<lambda>(el, ls).
               map (\<lambda>l. RemoveEventListenerCall el (event l) (handler l) (options l)) ls)
             (eventListeners m))
     @ map DisconnectCall (observers m)
     @ map ClearTimeoutCall (timeouts m)
     @ map ClearIntervalCall (intervals m)
     @ map CallbackCall (cleanupCallbacks m)"

fun warning_for :: "effect \<Rightarrow> string" where
  "warning_for (RemoveEventListenerCall _ _ _ _) = ''Error removing event listener:''"
| "warning_for (DisconnectCall _) = ''Error disconnecting observer:''"
| "warning_for (ClearTimeoutCall _) = ''Error clearing timeout:''"
| "warning_for (ClearIntervalCall _) = ''Error clearing interval:''"
| "warning_for (CallbackCall _) = ''Error in cleanup callback:''"
| "warning_for _ = []"

text \<open>One item of the release: the call, and the warning when the call threw.\<close>

definition attempted :: "env \<Rightarrow> effect \<Rightarrow> effect list" where
  "attempted env c =
     (case throws env c of None \<Rightarrow> [c] | Some e \<Rightarrow> [c, ConsoleWarn (warning_for c) e])"


definition emptied :: "MemoryManager \<Rightarrow> MemoryManager" where
  "emptied m = m\<lparr>eventListeners := [], observers := [], intervals := [], timeouts := [],
                  cleanupCallbacks := []\<rparr>"

text \<open>None of the teardown calls for what is tracked calls the registry.\<close>

definition no_reentry :: "env \<Rightarrow> MemoryManager \<Rightarrow> bool" where
  "no_reentry env m = (\<forall>c \<in> set (release_order m). reenters env c = [])"

text \<open>The number of owners and of tracked items: enough fuel for a release without re-entry.\<close>

definition release_size :: "MemoryManager \<Rightarrow> nat" where
  "release_size m = length (eventListeners m) + length (release_order m)"

text \<open>The test of \<open>removeEventListener\<close> on one record.\<close>

definition matches :: "string \<Rightarrow> func \<Rightarrow> listenerInfo \<Rightarrow> bool" where
  "matches ev h l = (event l = ev \<and> (handler l = h \<or> originalHandler l = h))"

section \<open>Invariants of the registry\<close>


definition no_repetition :: "world \<Rightarrow> bool" where
  "no_repetition w =
     (let m = memoryManager w
      in distinct (map fst (eventListeners m)) \<and> distinct (observers m) \<and>
         distinct (timeouts m) \<and> distinct (intervals m) \<and> distinct (cleanupCallbacks m))"

section \<open>Registrations and their unregistrations\<close>


text \<open>
  \<open>created_before n f\<close>: the function object \<open>f\<close> exists when \<open>n\<close> objects have been
  created by the registry, so every \<open>bind\<close> in it is one of the first \<open>n\<close>.
\<close>

fun created_before :: "nat \<Rightarrow> func \<Rightarrow> bool" where
  "created_before n (Fn _) = True"
| "created_before n (Bound k f) = (k < n \<and> created_before n f)"







section \<open>Example pages\<close>

text \<open>
  A page on which no call throws, one on which some do, and one on which the cleanup
  callback \<open>Fn 9\<close> schedules a one-shot timer through the registry.
\<close>

definition example_env :: env where
  "example_env =
     \<lparr>throws = (\<lambda>_. None), reenters = (\<lambda>_. []), date_now = 1700000000000,
      location_href = ''https://example.org/gallery''\<rparr>"

fun example_failures :: "effect \<Rightarrow> js_error option" where
  "example_failures (RemoveEventListenerCall el _ _ _) =
     (if el = Element 1 then Some (Error ''detach failed'') else None)"
| "example_failures (CallbackCall f) =
     (if f = Fn 9 then Some (Error ''cleanup failed'') else None)"
| "example_failures (SendMessageCall _) = Some (Error ''Extension context invalidated.'')"
| "example_failures _ = None"

definition failing_env :: env where
  "failing_env =
     \<lparr>throws = example_failures, reenters = (\<lambda>_. []), date_now = 1700000000000,
      location_href = ''https://example.org/gallery''\<rparr>"



text \<open>
  Three listeners on two owners, one observer, two one-shot timers, one repeating timer
  and one cleanup callback, and the state that these calls reach.
\<close>

definition example_calls :: "action list" where
  "example_calls =
     [Call (AddEventListener (Element 1) ''click'' (Fn 1) (Options 0)),
      Call (AddEventListener (Element 1) ''keydown'' (Fn 2) (Options 0)),
      Call (AddEventListener (Element 2) ''scroll'' (Fn 3) (Options 0)),
      Call (CreateObserver 0 (Fn 4) (Options 0)),
      Call (SetTimeout (Fn 5) 100),
      Call (SetTimeout (Fn 6) 200),
      Call (SetInterval (Fn 7) 50),
      Call (AddCleanupCallback (Fn 9))]"

definition example_world :: world where
  "example_world =
     \<lparr>memoryManager =
        \<lparr>eventListeners =
           [(Element 1,
             [\<lparr>event = ''click'', handler = Bound 0 (Fn 1), originalHandler = Fn 1,
               options = Options 0, element = Element 1\<rparr>,
              \<lparr>event = ''keydown'', handler = Bound 1 (Fn 2), originalHandler = Fn 2,
               options = Options 0, element = Element 1\<rparr>]),
            (Element 2,
             [\<lparr>event = ''scroll'', handler = Bound 2 (Fn 3), originalHandler = Fn 3,
               options = Options 0, element = Element 2\<rparr>])],
         timers = [], observers = [Observer 3], intervals = [3], timeouts = [1, 2],
         references = [], cleanupCallbacks = [Fn 9]\<rparr>,
      next_object = 4, next_timer = 4,
      pending = [1 \<mapsto> TimeoutTask 1 (Fn 5), 2 \<mapsto> TimeoutTask 2 (Fn 6),
                 3 \<mapsto> IntervalTask (Fn 7)]\<rparr>"


text \<open>The same handler registered twice for the same event on one owner.\<close>

definition twice_registered :: world where
  "twice_registered =
     \<lparr>memoryManager =
        \<lparr>eventListeners =
           [(Element 1,
             [\<lparr>event = ''click'', handler = Bound 0 (Fn 1), originalHandler = Fn 1,
               options = Options 0, element = Element 1\<rparr>,
              \<lparr>event = ''click'', handler = Bound 1 (Fn 1), originalHandler = Fn 1,
               options = Options 0, element = Element 1\<rparr>])],
         timers = [], observers = [], intervals = [], timeouts = [],
         references = [], cleanupCallbacks = []\<rparr>,
      next_object = 2, next_timer = 1, pending = (\<lambda>_. None)\<rparr>"

text \<open>A state in which the one-shot timer with handle 1 has fired.\<close>

definition fired_world :: world where
  "fired_world =
     \<lparr>memoryManager = MemoryManager_new, next_object = 0, next_timer = 2,
      pending = (\<lambda>_. None)\<rparr>"

text \<open>Calls that neither cancel the repeating timer with handle 1 nor release everything.\<close>

definition idle_calls :: "action list" where
  "idle_calls =
     [Fire 1, Call (SetTimeout (Fn 6) 10), Fire 1, Call (ClearTimeout 2), Call GetMemoryUsage]"




section \<open>Lemmas\<close>

subsection \<open>cleanupAll on a page that does not call the registry\<close>

lemma log_empty: "log args = []"
  by (simp add: log_def log_when_def CONTENT_DEBUG_def)

lemma memoryManager_page_effect [simp]:
  "memoryManager (page_effect env c w) = memoryManager w"
  by (cases c) simp_all

lemma tracked_listeners_page_effect [simp]:
  "tracked_listeners (page_effect env c w) el = tracked_listeners w el"
  by (simp add: tracked_listeners_def)

lemma try_call_quiet:
  "reenters env c = [] \<Longrightarrow> warning_for c = msg \<Longrightarrow>
   try_call env msg track c w it = (page_effect env c w, it, attempted env c)"
  by (auto simp: try_call_def attempted_def split: option.splits)

lemma release_each_quiet:
  assumes "\<And>x. warning_for (call_of x) = msg"
  shows "\<forall>x \<in> set xs. reenters env (call_of x) = [] \<Longrightarrow> length xs \<le> n \<Longrightarrow>
    release_each n env msg call_of view xs w =
      Some (fold (\<lambda>x. page_effect env (call_of x)) xs w,
            concat (map (attempted env) (map call_of xs)))"
proof (induction xs arbitrary: n w)
  case Nil
  show ?case by simp
next
  case (Cons x xs)
  then obtain n' where n: "n = Suc n'" and le: "length xs \<le> n'"
    by (cases n) auto
  from Cons.prems have q: "reenters env (call_of x) = []"
    and qs: "\<forall>x \<in> set xs. reenters env (call_of x) = []"
    by simp_all
  show ?case
    using Cons.IH [OF qs le] by (simp add: n try_call_quiet [OF q assms])
qed

lemma memoryManager_fold_page_effect [simp]:
  "memoryManager (fold (\<lambda>x. page_effect env (f x)) xs w) = memoryManager w"
  by (induction xs arbitrary: w) simp_all

lemma release_listeners_quiet:
  "\<forall>l \<in> set ls. reenters env
      (RemoveEventListenerCall el (event l) (handler l) (options l)) = [] \<Longrightarrow>
   length ls \<le> n \<Longrightarrow>
    release_listeners n env el (els, Some ls) w =
      Some (w, els,
            concat (map (attempted env)
              (map (\<lambda>l. RemoveEventListenerCall el (event l) (handler l) (options l)) ls)))"
proof (induction ls arbitrary: n)
  case Nil
  show ?case by simp
next
  case (Cons l ls)
  then obtain n' where n: "n = Suc n'" and le: "length ls \<le> n'"
    by (cases n) auto
  from Cons.prems have q: "reenters env
      (RemoveEventListenerCall el (event l) (handler l) (options l)) = []"
    and qs: "\<forall>l \<in> set ls. reenters env
      (RemoveEventListenerCall el (event l) (handler l) (options l)) = []"
    by simp_all
  show ?case
    using Cons.IH [OF qs le] by (simp add: n try_call_quiet [OF q])
qed

lemma release_owners_quiet:
  "\<forall>el \<in> set els. \<forall>l \<in> set (tracked_listeners w el). reenters env
      (RemoveEventListenerCall el (event l) (handler l) (options l)) = [] \<Longrightarrow>
   length els \<le> n \<Longrightarrow> \<forall>el \<in> set els. length (tracked_listeners w el) \<le> k \<Longrightarrow>
    release_owners n k env els w =
      Some (w, concat (map (attempted env)
              (concat (map (\<lambda>el. map (\<lambda>l. RemoveEventListenerCall el (event l) (handler l)
                 (options l)) (tracked_listeners w el)) els))))"
proof (induction els arbitrary: n)
  case Nil
  show ?case by simp
next
  case (Cons el els)
  then obtain n' where n: "n = Suc n'" and le: "length els \<le> n'"
    by (cases n) auto
  from Cons.prems have k: "length (tracked_listeners w el) \<le> k"
    and ks: "\<forall>el \<in> set els. length (tracked_listeners w el) \<le> k"
    and q: "\<forall>l \<in> set (tracked_listeners w el). reenters env
      (RemoveEventListenerCall el (event l) (handler l) (options l)) = []"
    and qs: "\<forall>el \<in> set els. \<forall>l \<in> set (tracked_listeners w el). reenters env
      (RemoveEventListenerCall el (event l) (handler l) (options l)) = []"
    by auto
  show ?case
    using Cons.IH [OF qs le ks]
    by (simp add: n release_listeners_quiet [OF q k])
qed

lemma owners_listing:
  "distinct (map fst els) \<Longrightarrow>
   map (\<lambda>el. f el (case map_of els el of None \<Rightarrow> [] | Some ls \<Rightarrow> ls)) (map fst els) =
   map (\<lambda>(el, ls). f el ls) els"
  by (induction els) (auto simp: rev_image_eqI)

lemma length_entry_le:
  "(el, ls) \<in> set els \<Longrightarrow> length ls \<le> length (concat (map (\<lambda>(el, ls). map (g el) ls) els))"
  by (induction els) auto

lemma tracked_le_release_size:
  "length (tracked_listeners w el) \<le> release_size (memoryManager w)"
proof (cases "map_of (eventListeners (memoryManager w)) el")
  case None
  then show ?thesis by (simp add: tracked_listeners_def)
next
  case (Some ls)
  then have "(el, ls) \<in> set (eventListeners (memoryManager w))"
    by (rule map_of_SomeD)
  from length_entry_le [OF this,
      of "\<lambda>el l. RemoveEventListenerCall el (event l) (handler l) (options l)"] Some
  show ?thesis
    by (simp add: tracked_listeners_def release_size_def release_order_def)
qed

lemma release_owners_order:
  assumes "no_reentry env (memoryManager w)" and "distinct (owners w)"
    and "release_size (memoryManager w) \<le> fuel"
  shows "release_owners fuel fuel env (owners w) w =
     Some (w, concat (map (attempted env)
       (concat (map (\<lambda>(el, ls).
          map (\<lambda>l. RemoveEventListenerCall el (event l) (handler l) (options l)) ls)
          (eventListeners (memoryManager w))))))"
proof -
  have a: "length (owners w) \<le> fuel"
    using assms(3) by (simp add: owners_def release_size_def)
  have b: "\<forall>el \<in> set (owners w). length (tracked_listeners w el) \<le> fuel"
    using tracked_le_release_size [of w] assms(3) by (meson le_trans)
  have c: "map (\<lambda>el. map (\<lambda>l. RemoveEventListenerCall el (event l) (handler l) (options l))
              (tracked_listeners w el)) (owners w) =
           map (\<lambda>(el, ls). map (\<lambda>l. RemoveEventListenerCall el (event l) (handler l)
              (options l)) ls) (eventListeners (memoryManager w))"
    using owners_listing [of "eventListeners (memoryManager w)"
        "\<lambda>el ls. map (\<lambda>l. RemoveEventListenerCall el (event l) (handler l) (options l)) ls"]
      assms(2)
    by (simp add: owners_def tracked_listeners_def)
  have q: "\<forall>el \<in> set (owners w). \<forall>l \<in> set (tracked_listeners w el). reenters env
      (RemoveEventListenerCall el (event l) (handler l) (options l)) = []"
  proof (intro ballI)
    fix el l
    assume "l \<in> set (tracked_listeners w el)"
    then obtain ls where "map_of (eventListeners (memoryManager w)) el = Some ls" "l \<in> set ls"
      by (cases "map_of (eventListeners (memoryManager w)) el")
        (auto simp: tracked_listeners_def)
    then have "(el, ls) \<in> set (eventListeners (memoryManager w))" "l \<in> set ls"
      by (auto dest: map_of_SomeD)
    then have "RemoveEventListenerCall el (event l) (handler l) (options l)
        \<in> set (release_order (memoryManager w))"
      by (force simp: release_order_def)
    with assms(1) show "reenters env
        (RemoveEventListenerCall el (event l) (handler l) (options l)) = []"
      by (simp add: no_reentry_def)
  qed
  show ?thesis
    using release_owners_quiet [OF q a b] by (simp add: c)
qed

lemma cleanupAll_quiet:
  assumes "no_reentry env (memoryManager w)" and "distinct (owners w)"
    and "release_size (memoryManager w) \<le> fuel"
  shows "\<exists>w'. cleanupAll fuel env w =
           Some (Inr (), w', concat (map (attempted env) (release_order (memoryManager w))))
         \<and> memoryManager w' = emptied (memoryManager w)"
proof -
  let ?m = "memoryManager w"
  have l2: "length (observers ?m) \<le> fuel" and l3: "length (timeouts ?m) \<le> fuel"
    and l4: "length (intervals ?m) \<le> fuel" and l5: "length (cleanupCallbacks ?m) \<le> fuel"
    using assms(3) by (simp_all add: release_size_def release_order_def)
  have r2: "\<forall>x \<in> set (observers ?m). reenters env (DisconnectCall x) = []"
    and r3: "\<forall>x \<in> set (timeouts ?m). reenters env (ClearTimeoutCall x) = []"
    and r4: "\<forall>x \<in> set (intervals ?m). reenters env (ClearIntervalCall x) = []"
    and r5: "\<forall>x \<in> set (cleanupCallbacks ?m). reenters env (CallbackCall x) = []"
    using assms(1) by (simp_all add: no_reentry_def release_order_def)
  note q = release_each_quiet
  show ?thesis
    unfolding cleanupAll_def
    apply (simp add: release_owners_order [OF assms])
    apply (simp add: clear_eventListeners_def q l2 r2)
    apply (simp add: clear_observers_def q l3 r3)
    apply (simp add: clear_timeouts_def q l4 r4)
    apply (simp add: clear_intervals_def q l5 r5)
    apply (simp add: clear_cleanupCallbacks_def log_empty release_order_def emptied_def)
    done
qed



lemma set_js_set_add: "set (js_set_add xs x) = insert x (set xs)"
  by (auto simp: js_set_add_def)

lemma set_js_set_delete: "set (js_set_delete xs x) = set xs - {x}"
  by (auto simp: js_set_delete_def)

lemma distinct_js_set_add: "distinct xs \<Longrightarrow> distinct (js_set_add xs x)"
  by (simp add: js_set_add_def)

lemma distinct_js_set_delete: "distinct xs \<Longrightarrow> distinct (js_set_delete xs x)"
  by (simp add: js_set_delete_def distinct_removeAll)

subsection \<open>What every step keeps, cleanupAll keeps\<close>

lemma react_keeps:
  assumes step: "\<And>c w. P w \<Longrightarrow> P (fst (step env c w))"
  shows "P w \<Longrightarrow> react env track cs w it = (w', it', es) \<Longrightarrow> P w'"
proof (induction cs arbitrary: w it w' it' es)
  case Nil
  then show ?case by simp
next
  case (Cons c cs)
  obtain w1 e1 where s: "step env c w = (w1, e1)"
    by (cases "step env c w")
  obtain w2 it2 e2 where r: "react env track cs w1 (track w w1 it) = (w2, it2, e2)"
    by (metis prod_cases3)
  from step [OF Cons.prems(1), of c] s have "P w1" by simp
  from Cons.IH [OF this r] have "P w2" .
  with Cons.prems(2) s r show ?case by simp
qed

lemma try_call_keeps:
  assumes step: "\<And>c w. P w \<Longrightarrow> P (fst (step env c w))"
    and page: "\<And>c w. P w \<Longrightarrow> P (page_effect env c w)"
  shows "P w \<Longrightarrow> try_call env msg track c w it = (w', it', es) \<Longrightarrow> P w'"
proof -
  assume w: "P w" and t: "try_call env msg track c w it = (w', it', es)"
  obtain w1 it1 e1 where
    r: "react env track (reenters env c) (page_effect env c w) it = (w1, it1, e1)"
    by (metis prod_cases3)
  have "P w1"
    by (rule react_keeps [where P = P and env = env, OF _ _ r]) (auto intro: step page w)
  with t r show "P w'" by (simp add: try_call_def)
qed

lemma release_each_keeps:
  assumes step: "\<And>c w. P w \<Longrightarrow> P (fst (step env c w))"
    and page: "\<And>c w. P w \<Longrightarrow> P (page_effect env c w)"
  shows "P w \<Longrightarrow> release_each n env msg call_of view xs w = Some (w', es) \<Longrightarrow> P w'"
proof (induction n arbitrary: xs w w' es)
  case 0
  then show ?case by (cases xs) simp_all
next
  case (Suc n)
  show ?case
  proof (cases xs)
    case Nil
    with Suc.prems show ?thesis by simp
  next
    case (Cons x remaining)
    obtain w1 r1 e1 where t: "try_call env msg (\<lambda>w w'. advance (view w) (view w'))
        (call_of x) w remaining = (w1, r1, e1)"
      by (metis prod_cases3)
    have w1: "P w1"
      by (rule try_call_keeps [where P = P and env = env, OF _ _ _ t])
        (auto intro: step page Suc.prems(1))
    from Suc.prems(2) Cons t obtain e2 where
      "release_each n env msg call_of view r1 w1 = Some (w', e2)"
      by (auto split: option.splits)
    from Suc.IH [OF w1 this] show ?thesis .
  qed
qed

lemma release_listeners_keeps:
  assumes step: "\<And>c w. P w \<Longrightarrow> P (fst (step env c w))"
    and page: "\<And>c w. P w \<Longrightarrow> P (page_effect env c w)"
  shows "P w \<Longrightarrow> release_listeners n env el it w = Some (w', els', es) \<Longrightarrow> P w'"
proof (induction n arbitrary: it w w' els' es)
  case 0
  obtain els ls where it: "it = (els, ls)" by (cases it)
  with 0 show ?case
    by (cases ls; cases "the ls") auto
next
  case (Suc n)
  obtain els ls where it: "it = (els, ls)" by (cases it)
  show ?case
  proof (cases ls)
    case None
    with Suc.prems it show ?thesis by simp
  next
    case (Some remaining)
    show ?thesis
    proof (cases remaining)
      case Nil
      with Suc.prems it Some show ?thesis by simp
    next
      case (Cons l ls')
      obtain w1 it1 e1 where t: "try_call env ''Error removing event listener:''
          (track_listeners el)
          (RemoveEventListenerCall el (event l) (handler l) (options l)) w (els, Some ls') =
          (w1, it1, e1)"
        by (metis prod_cases3)
      have w1: "P w1"
      by (rule try_call_keeps [where P = P and env = env, OF _ _ _ t])
        (auto intro: step page Suc.prems(1))
      from Suc.prems(2) it Some Cons t obtain e2 where
        "release_listeners n env el it1 w1 = Some (w', els', e2)"
        by (auto split: option.splits)
      from Suc.IH [OF w1 this] show ?thesis .
    qed
  qed
qed

lemma release_owners_keeps:
  assumes step: "\<And>c w. P w \<Longrightarrow> P (fst (step env c w))"
    and page: "\<And>c w. P w \<Longrightarrow> P (page_effect env c w)"
  shows "P w \<Longrightarrow> release_owners n k env els w = Some (w', es) \<Longrightarrow> P w'"
proof (induction n arbitrary: els w w' es)
  case 0
  then show ?case by (cases els) simp_all
next
  case (Suc n)
  show ?case
  proof (cases els)
    case Nil
    with Suc.prems show ?thesis by simp
  next
    case (Cons el els0)
    from Suc.prems(2) Cons obtain w1 els1 e1 e2 where
      a: "release_listeners k env el (els0, Some (tracked_listeners w el)) w = Some (w1, els1, e1)"
      and b: "release_owners n k env els1 w1 = Some (w', e2)"
      by (auto split: option.splits)
    have "P w1"
      by (rule release_listeners_keeps [where P = P and env = env, OF _ _ _ a])
        (auto intro: step page Suc.prems(1))
    from Suc.IH [OF this b] show ?thesis .
  qed
qed

lemma cleanupAll_keeps:
  assumes step: "\<And>c w. P w \<Longrightarrow> P (fst (step env c w))"
    and page: "\<And>c w. P w \<Longrightarrow> P (page_effect env c w)"
    and c1: "\<And>w. P w \<Longrightarrow> P (clear_eventListeners w)"
    and c2: "\<And>w. P w \<Longrightarrow> P (clear_observers w)"
    and c3: "\<And>w. P w \<Longrightarrow> P (clear_timeouts w)"
    and c4: "\<And>w. P w \<Longrightarrow> P (clear_intervals w)"
    and c5: "\<And>w. P w \<Longrightarrow> P (clear_cleanupCallbacks w)"
  shows "P w \<Longrightarrow> cleanupAll fuel env w = Some (r, w', es) \<Longrightarrow> P w'"
proof -
  assume w: "P w" and c: "cleanupAll fuel env w = Some (r, w', es)"
  from c obtain w1 e1 w2 e2 w3 e3 w4 e4 w5 e5 where
    a1: "release_owners fuel fuel env (owners w) w = Some (w1, e1)"
    and a2: "release_each fuel env ''Error disconnecting observer:'' DisconnectCall
             (\<lambda>w. observers (memoryManager w))
             (observers (memoryManager (clear_eventListeners w1))) (clear_eventListeners w1) =
             Some (w2, e2)"
    and a3: "release_each fuel env ''Error clearing timeout:'' ClearTimeoutCall
             (\<lambda>w. timeouts (memoryManager w))
             (timeouts (memoryManager (clear_observers w2))) (clear_observers w2) =
             Some (w3, e3)"
    and a4: "release_each fuel env ''Error clearing interval:'' ClearIntervalCall
             (\<lambda>w. intervals (memoryManager w))
             (intervals (memoryManager (clear_timeouts w3))) (clear_timeouts w3) =
             Some (w4, e4)"
    and a5: "release_each fuel env ''Error in cleanup callback:'' CallbackCall
             (\<lambda>w. cleanupCallbacks (memoryManager w))
             (cleanupCallbacks (memoryManager (clear_intervals w4))) (clear_intervals w4) =
             Some (w5, e5)"
    and a6: "w' = clear_cleanupCallbacks w5"
    unfolding cleanupAll_def by (auto split: option.splits)
  have w1: "P w1"
    by (rule release_owners_keeps [where P = P and env = env, OF _ _ _ a1])
      (auto intro: step page w)
  have w2: "P w2"
    by (rule release_each_keeps [where P = P and env = env, OF _ _ _ a2])
      (auto intro: step page c1 w1)
  have w3: "P w3"
    by (rule release_each_keeps [where P = P and env = env, OF _ _ _ a3])
      (auto intro: step page c2 w2)
  have w4: "P w4"
    by (rule release_each_keeps [where P = P and env = env, OF _ _ _ a4])
      (auto intro: step page c3 w3)
  have w5: "P w5"
    by (rule release_each_keeps [where P = P and env = env, OF _ _ _ a5])
      (auto intro: step page c4 w4)
  from c5 [OF w5] a6 show "P w'" by simp
qed

lemmas clear_defs = clear_eventListeners_def clear_observers_def clear_timeouts_def
  clear_intervals_def clear_cleanupCallbacks_def

subsection \<open>No entry with an empty set of listeners\<close>










subsection \<open>No repetition in a tracked collection\<close>

lemma no_repetition_step:
  "no_repetition w \<Longrightarrow> no_repetition (fst (step env c w))"
proof (cases c)
  case (RemoveEventListener el ev h)
  then show "no_repetition w \<Longrightarrow> ?thesis"
    by (auto simp: no_repetition_def removeEventListener_def Let_def distinct_update
        distinct_delete split: option.splits)
qed (auto simp: no_repetition_def addEventListener_def createObserver_def setTimeout_def
      setInterval_def clearTimeout_def clearInterval_def addCleanupCallback_def
      removeCleanupCallback_def getMemoryUsage_def Let_def distinct_update
      distinct_js_set_add distinct_js_set_delete split: option.splits)

lemma no_repetition_fire: "no_repetition w \<Longrightarrow> no_repetition (fst (fire i w))"
  by (auto simp: no_repetition_def fire_def Let_def distinct_js_set_delete
      split: option.splits task.splits)

lemma no_repetition_page_effect:
  "no_repetition w \<Longrightarrow> no_repetition (page_effect env c w)"
  by (simp add: no_repetition_def)

lemma no_repetition_cleanupAll:
  assumes "no_repetition w" and "cleanupAll fuel env w = Some (r, w', es)"
  shows "no_repetition w'"
proof (rule cleanupAll_keeps [where P = no_repetition, OF _ _ _ _ _ _ _ assms])
  show "\<And>c w. no_repetition w \<Longrightarrow> no_repetition (fst (step env c w))"
    by (rule no_repetition_step)
  show "\<And>c w. no_repetition w \<Longrightarrow> no_repetition (page_effect env c w)"
    by (rule no_repetition_page_effect)
qed (simp_all add: no_repetition_def clear_defs Let_def)

lemma no_repetition_perform:
  "no_repetition w \<Longrightarrow> perform fuel env a w = Some (w', es) \<Longrightarrow> no_repetition w'"
proof (cases a)
  case (Call c)
  then show "no_repetition w \<Longrightarrow> perform fuel env a w = Some (w', es) \<Longrightarrow> ?thesis"
    using no_repetition_step [of w env c] by auto
next
  case CleanupAll
  then show "no_repetition w \<Longrightarrow> perform fuel env a w = Some (w', es) \<Longrightarrow> ?thesis"
    by (auto dest: no_repetition_cleanupAll)
next
  case (Fire i)
  then show "no_repetition w \<Longrightarrow> perform fuel env a w = Some (w', es) \<Longrightarrow> ?thesis"
    using no_repetition_fire [of w i] by auto
qed

lemma no_repetition_run:
  "no_repetition w \<Longrightarrow> run fuel env as w = Some w' \<Longrightarrow> no_repetition w'"
proof (induction as arbitrary: w)
  case Nil
  then show ?case by simp
next
  case (Cons a as)
  from Cons.prems(2) obtain w1 e1 where
    p: "perform fuel env a w = Some (w1, e1)" and r: "run fuel env as w1 = Some w'"
    by (auto split: option.splits)
  from Cons.IH [OF no_repetition_perform [OF Cons.prems(1) p] r] show ?case .
qed

lemma no_repetition_initial: "no_repetition initial_world"
  by (simp add: no_repetition_def initial_world_def MemoryManager_new_def)

subsection \<open>Evaluation\<close>

lemmas op_defs = addEventListener_def removeEventListener_def createObserver_def setTimeout_def
  setInterval_def clearTimeout_def clearInterval_def addCleanupCallback_def
  removeCleanupCallback_def getMemoryUsage_def fire_def Let_def js_set_add_def
  js_set_delete_def initial_world_def MemoryManager_new_def find_listener_def

lemma run_Call: "run fuel env (Call c # as) w = run fuel env as (fst (step env c w))"
  by (simp split: prod.splits)

lemma run_Fire: "run fuel env (Fire i # as) w = run fuel env as (fst (fire i w))"
  by (simp split: prod.splits)

lemma example_world_run:
  "run fuel failing_env example_calls initial_world = Some example_world"
  by (simp add: run_Call example_world_def example_calls_def failing_env_def op_defs
      numeral_2_eq_2 numeral_3_eq_3 del: run.simps(2))

lemma run_append:
  "run fuel env (as @ bs) w =
     (case run fuel env as w of None \<Rightarrow> None | Some w1 \<Rightarrow> run fuel env bs w1)"
  by (induction as arbitrary: w) (auto split: option.splits)





subsection \<open>Records and their unregistration\<close>

lemma created_before_mono: "created_before n f \<Longrightarrow> n \<le> m \<Longrightarrow> created_before m f"
  by (induction f) auto

lemma created_before_not_self: "created_before k (Bound j f) \<Longrightarrow> j < k"
  by simp






lemma find_listener_Some:
  "find_listener ev h ls = Some l \<Longrightarrow> l \<in> set ls \<and> matches ev h l"
  by (auto simp: find_listener_def matches_def find_Some_iff)

lemma find_listener_None:
  "find_listener ev h ls = None \<Longrightarrow> l \<in> set ls \<Longrightarrow> \<not> matches ev h l"
  by (auto simp: find_listener_def matches_def find_None_iff)

lemma removeEventListener_not_found:
  "find_listener ev h (tracked_listeners w el) = None \<Longrightarrow>
   removeEventListener env el ev h w = (Inr (), w, [])"
  by (auto simp: removeEventListener_def tracked_listeners_def Let_def split: option.splits)

lemma removeEventListener_throws:
  "find_listener ev h (tracked_listeners w el) = Some l \<Longrightarrow>
   throws env (RemoveEventListenerCall el ev (handler l) (options l)) = Some e \<Longrightarrow>
   removeEventListener env el ev h w =
     (Inl e, w, [RemoveEventListenerCall el ev (handler l) (options l)])"
  by (auto simp: removeEventListener_def tracked_listeners_def Let_def find_listener_def
      split: option.splits)

lemma removeEventListener_found:
  assumes "find_listener ev h (tracked_listeners w el) = Some l"
    and "throws env (RemoveEventListenerCall el ev (handler l) (options l)) = None"
  shows "result_of (removeEventListener env el ev h w) = Inr ()"
    and "effects_of (removeEventListener env el ev h w) =
           [RemoveEventListenerCall el ev (handler l) (options l)]"
    and "tracked_listeners (world_of (removeEventListener env el ev h w)) el' =
           (if el' = el then remove1 l (tracked_listeners w el) else tracked_listeners w el')"
    and "world_of (removeEventListener env el ev h w) =
           w\<lparr>memoryManager := (memoryManager w)
               \<lparr>eventListeners :=
                  eventListeners (memoryManager (world_of (removeEventListener env el ev h w)))\<rparr>\<rparr>"
  using assms
  by (auto simp: removeEventListener_def tracked_listeners_def Let_def find_listener_def
      result_of_def effects_of_def world_of_def update_conv' delete_conv'
      split: option.splits)

lemma removeEventListener_entries:
  assumes "find_listener ev h (tracked_listeners w el) = Some l"
    and "throws env (RemoveEventListenerCall el ev (handler l) (options l)) = None"
  shows "eventListeners (memoryManager (world_of (removeEventListener env el ev h w))) =
           (if remove1 l (tracked_listeners w el) = []
            then AList.delete el (eventListeners (memoryManager w))
            else AList.update el (remove1 l (tracked_listeners w el))
                   (eventListeners (memoryManager w)))"
  using assms
  by (auto simp: removeEventListener_def tracked_listeners_def Let_def find_listener_def
      world_of_def split: option.splits)










subsection \<open>Timers\<close>

lemma fire_timeout:
  "pending w i = Some (TimeoutTask i callback) \<Longrightarrow>
   i \<notin> set (timeouts (memoryManager (fst (fire i w)))) \<and> snd (fire i w) = [CallbackCall callback]"
  by (simp add: fire_def Let_def set_js_set_delete)

lemma fire_interval:
  "pending w i = Some (IntervalTask callback) \<Longrightarrow> fire i w = (w, [CallbackCall callback])"
  by (simp add: fire_def)

lemma intervals_step:
  "c \<noteq> ClearInterval i \<Longrightarrow> i \<in> set (intervals (memoryManager w)) \<Longrightarrow>
   i \<in> set (intervals (memoryManager (fst (step env c w))))"
  by (cases c)
    (auto simp: addEventListener_def removeEventListener_def createObserver_def setTimeout_def
      setInterval_def clearTimeout_def clearInterval_def addCleanupCallback_def
      removeCleanupCallback_def getMemoryUsage_def Let_def set_js_set_add
      set_js_set_delete split: option.splits)

lemma intervals_fire:
  "i \<in> set (intervals (memoryManager w)) \<Longrightarrow>
   i \<in> set (intervals (memoryManager (fst (fire j w))))"
  by (auto simp: fire_def Let_def split: option.splits task.splits)

lemma intervals_run:
  "Call (ClearInterval i) \<notin> set cs \<Longrightarrow> CleanupAll \<notin> set cs \<Longrightarrow>
   i \<in> set (intervals (memoryManager w)) \<Longrightarrow>
   \<exists>w'. run fuel env cs w = Some w' \<and> i \<in> set (intervals (memoryManager w'))"
proof (induction cs arbitrary: w)
  case Nil
  then show ?case by simp
next
  case (Cons a cs)
  show ?case
  proof (cases a)
    case (Call c)
    with Cons.prems have "c \<noteq> ClearInterval i" by auto
    with Cons.prems have "i \<in> set (intervals (memoryManager (fst (step env c w))))"
      by (simp add: intervals_step)
    with Cons.IH [of "fst (step env c w)"] Cons.prems Call show ?thesis
      by (simp add: run_Call del: run.simps(2))
  next
    case CleanupAll
    with Cons.prems show ?thesis by simp
  next
    case (Fire j)
    from Cons.prems have "i \<in> set (intervals (memoryManager (fst (fire j w))))"
      by (simp add: intervals_fire)
    with Cons.IH [of "fst (fire j w)"] Cons.prems Fire show ?thesis
      by (simp add: run_Fire del: run.simps(2))
  qed
qed

section \<open>The claims\<close>

subsection \<open>C1\<close>




subsection \<open>C2\<close>




subsection \<open>C3\<close>

text \<open>
  Claim C3. One call of the function that \<open>safeContentExecute\<close> returns sets a timer
  of \<open>MAX_EXECUTION_TIME = 30000\<close> milliseconds once the operation has been started and
  races the operation against it. If the operation settles before the timer fires, its
  result or its failure is the outcome, unchanged; if the timer fires before the
  operation settles, or the operation never settles, the call fails with the error
  \<open>Execution timeout\<close>; an operation that throws at once fails with what it threw,
  and no timer is set. On a success the slow-execution note is passed to \<open>log\<close> exactly
  when the time since the start of the call is above 5000 milliseconds, and the result is
  returned as it is; on a failure the failure is passed to \<open>log\<close>. \<open>log\<close> writes what it
  gets to the console when the debug flag is set, and nothing when it is not, as in the
  source.
\<close>

theorem guard_race:
  "MAX_EXECUTION_TIME = 30000
   \<and> (t < d + MAX_EXECUTION_TIME \<longrightarrow>
        safeContentExecute debug (FnReturns d (Some (t, Fulfilled (v::'a)))) label w =
          (Some (max d t, Fulfilled v),
           w\<lparr>next_timer := Suc (next_timer w),
             pending := (pending w)(next_timer w \<mapsto> GuardTask)\<rparr>,
           SetTimeoutCall (next_timer w) MAX_EXECUTION_TIME #
           (if 5000 < max d t then log_when debug (slow_note label (max d t)) else []))
        \<and> safeContentExecute debug (FnReturns d (Some (t, Rejected e)) :: 'a fn_result) label w =
          (Some (max d t, Rejected e),
           w\<lparr>next_timer := Suc (next_timer w),
             pending := (pending w)(next_timer w \<mapsto> GuardTask)\<rparr>,
           SetTimeoutCall (next_timer w) MAX_EXECUTION_TIME #
           log_when debug (error_note label e)))
   \<and> (d + MAX_EXECUTION_TIME < t \<longrightarrow>
        safeContentExecute debug (FnReturns d (Some (t, s::'a settlement))) label w =
          (Some (d + MAX_EXECUTION_TIME, Rejected (Error ''Execution timeout'')),
           w\<lparr>next_timer := Suc (next_timer w),
             pending := (pending w)(next_timer w \<mapsto> GuardTask)\<rparr>,
           SetTimeoutCall (next_timer w) MAX_EXECUTION_TIME #
           log_when debug (error_note label (Error ''Execution timeout''))))
   \<and> safeContentExecute debug (FnReturns d None :: 'a fn_result) label w =
        (Some (d + MAX_EXECUTION_TIME, Rejected (Error ''Execution timeout'')),
         w\<lparr>next_timer := Suc (next_timer w),
           pending := (pending w)(next_timer w \<mapsto> GuardTask)\<rparr>,
         SetTimeoutCall (next_timer w) MAX_EXECUTION_TIME #
         log_when debug (error_note label (Error ''Execution timeout'')))
   \<and> safeContentExecute debug (FnThrows d e :: 'a fn_result) label w =
        (Some (d, Rejected e), w, log_when debug (error_note label e))
   \<and> log_when True args = [ConsoleLog (Text ''STEPTWO Content:'' # args)]
   \<and> log_when CONTENT_DEBUG args = []"
  by (cases s)
    (auto simp: safeContentExecute_def timeout_promise_def seen_from_def MAX_EXECUTION_TIME_def
      log_when_def CONTENT_DEBUG_def Let_def max_def)

text \<open>
  An operation that succeeds 6000 milliseconds after the start, with the flag set and
  with the flag of the source, and one that has not settled when the timer fires.
\<close>

theorem guard_race_witness:
  "(6000::nat) < 0 + MAX_EXECUTION_TIME \<and> 0 + MAX_EXECUTION_TIME < (40000::nat)
   \<and> safeContentExecute True (FnReturns 0 (Some (6000, Fulfilled (7::nat)))) ''test''
        initial_world =
       (Some (6000, Fulfilled 7),
        initial_world\<lparr>next_timer := 2, pending := [1 \<mapsto> GuardTask]\<rparr>,
        [SetTimeoutCall 1 30000,
         ConsoleLog [Text ''STEPTWO Content:'', Text ''Slow execution in '', Text ''test'',
                     Text '': '', Num 6000, Text ''ms'']])
   \<and> safeContentExecute CONTENT_DEBUG (FnReturns 0 (Some (6000, Fulfilled (7::nat)))) ''test''
        initial_world =
       (Some (6000, Fulfilled 7),
        initial_world\<lparr>next_timer := 2, pending := [1 \<mapsto> GuardTask]\<rparr>,
        [SetTimeoutCall 1 30000])
   \<and> fst (safeContentExecute CONTENT_DEBUG (FnReturns 0 (Some (40000, Fulfilled (7::nat))))
          ''test'' initial_world) =
       Some (30000, Rejected (Error ''Execution timeout''))"
proof -
  have a: "(6000::nat) < 0 + MAX_EXECUTION_TIME" and b: "0 + MAX_EXECUTION_TIME < (40000::nat)"
    and c: "MAX_EXECUTION_TIME = 30000"
    by (simp_all add: MAX_EXECUTION_TIME_def)
  have n: "next_timer initial_world = 1" "pending initial_world = (\<lambda>_. None)"
    by (simp_all add: initial_world_def)
  note on = guard_race [where t = 6000 and d = 0 and debug = True and v = "7::nat"
      and label = "''test''" and w = initial_world and e = "Error ''failed''"
      and s = "Fulfilled 7" and args = "slow_note ''test'' 6000"]
  note off = guard_race [where t = 6000 and d = 0 and debug = CONTENT_DEBUG and v = "7::nat"
      and label = "''test''" and w = initial_world and e = "Error ''failed''"
      and s = "Fulfilled 7" and args = "slow_note ''test'' 6000"]
  note late = guard_race [where t = 40000 and d = 0 and debug = CONTENT_DEBUG and v = "7::nat"
      and label = "''test''" and w = initial_world and e = "Error ''failed''"
      and s = "Fulfilled 7" and args = "error_note ''test'' (Error ''Execution timeout'')"]
  have x: "safeContentExecute True (FnReturns 0 (Some (6000, Fulfilled (7::nat)))) ''test''
        initial_world =
       (Some (6000, Fulfilled 7),
        initial_world\<lparr>next_timer := 2, pending := [1 \<mapsto> GuardTask]\<rparr>,
        [SetTimeoutCall 1 30000,
         ConsoleLog [Text ''STEPTWO Content:'', Text ''Slow execution in '', Text ''test'',
                     Text '': '', Num 6000, Text ''ms'']])"
    using on a by (simp add: n c slow_note_def)
  have y: "safeContentExecute CONTENT_DEBUG (FnReturns 0 (Some (6000, Fulfilled (7::nat))))
        ''test'' initial_world =
       (Some (6000, Fulfilled 7),
        initial_world\<lparr>next_timer := 2, pending := [1 \<mapsto> GuardTask]\<rparr>,
        [SetTimeoutCall 1 30000])"
    using off a by (simp add: n c)
  have z: "fst (safeContentExecute CONTENT_DEBUG (FnReturns 0 (Some (40000, Fulfilled (7::nat))))
          ''test'' initial_world) =
       Some (30000, Rejected (Error ''Execution timeout''))"
    using late b by (simp add: c)
  from a b x y z show ?thesis by blast
qed

subsection \<open>C4\<close>




subsection \<open>C5\<close>

text \<open>
  Claim C5. The handle that \<open>setTimeout\<close> (scheduleOnce) returns is tracked, and when
  the timer fires the closure takes it out of \<open>timeouts\<close> and calls the callback. The
  handle that \<open>setInterval\<close> (scheduleRepeating) returns is tracked, firing leaves the
  registry as it is, and the handle stays in \<open>intervals\<close> through every sequence of
  calls that holds neither \<open>clearInterval\<close> of this handle nor \<open>cleanupAll\<close>.
\<close>

theorem timeout_auto_removed_interval_stays:
  "(result_of (setTimeout env callback delay w) = Inr (next_timer w)
    \<and> next_timer w \<in> set (timeouts (memoryManager (world_of (setTimeout env callback delay w))))
    \<and> snd (fire (next_timer w) (world_of (setTimeout env callback delay w))) =
         [CallbackCall callback]
    \<and> next_timer w \<notin> set (timeouts (memoryManager
          (fst (fire (next_timer w) (world_of (setTimeout env callback delay w)))))))
   \<and> (result_of (setInterval env callback delay w) = Inr (next_timer w)
    \<and> next_timer w \<in> set (intervals (memoryManager (world_of (setInterval env callback delay w))))
    \<and> fire (next_timer w) (world_of (setInterval env callback delay w)) =
         (world_of (setInterval env callback delay w), [CallbackCall callback])
    \<and> (Call (ClearInterval (next_timer w)) \<notin> set cs \<and> CleanupAll \<notin> set cs \<longrightarrow>
         (\<exists>w'. run fuel env cs (world_of (setInterval env callback delay w)) = Some w'
            \<and> next_timer w \<in> set (intervals (memoryManager w')))))"
proof -
  let ?w1 = "world_of (setTimeout env callback delay w)"
  let ?w2 = "world_of (setInterval env callback delay w)"
  have p1: "pending ?w1 (next_timer w) = Some (TimeoutTask (next_timer w) callback)"
    by (simp add: setTimeout_def world_of_def Let_def)
  have p2: "pending ?w2 (next_timer w) = Some (IntervalTask callback)"
    by (simp add: setInterval_def world_of_def Let_def)
  have r1: "result_of (setTimeout env callback delay w) = Inr (next_timer w)"
    by (simp add: setTimeout_def result_of_def Let_def)
  have r2: "result_of (setInterval env callback delay w) = Inr (next_timer w)"
    by (simp add: setInterval_def result_of_def Let_def)
  have m1: "next_timer w \<in> set (timeouts (memoryManager ?w1))"
    by (simp add: setTimeout_def world_of_def Let_def set_js_set_add)
  have m2: "next_timer w \<in> set (intervals (memoryManager ?w2))"
    by (simp add: setInterval_def world_of_def Let_def set_js_set_add)
  from fire_timeout [OF p1] fire_interval [OF p2] r1 r2 m1 m2
    intervals_run [of "next_timer w" cs ?w2 fuel env]
  show ?thesis by blast
qed

theorem timeout_auto_removed_interval_stays_witness:
  "Call (ClearInterval (next_timer initial_world)) \<notin> set idle_calls
   \<and> CleanupAll \<notin> set idle_calls
   \<and> next_timer initial_world = 1
   \<and> next_timer initial_world \<notin> set (timeouts (memoryManager
         (fst (fire (next_timer initial_world)
            (world_of (setTimeout example_env (Fn 5) 100 initial_world))))))
   \<and> (\<exists>w'. run 0 example_env idle_calls
              (world_of (setInterval example_env (Fn 5) 100 initial_world)) = Some w'
        \<and> next_timer initial_world \<in> set (intervals (memoryManager w')))"
proof -
  have a: "Call (ClearInterval (next_timer initial_world)) \<notin> set idle_calls"
    and b: "CleanupAll \<notin> set idle_calls"
    and c: "next_timer initial_world = 1"
    by (simp_all add: idle_calls_def initial_world_def)
  from timeout_auto_removed_interval_stays
         [where env = example_env and callback = "Fn 5" and delay = 100
            and w = initial_world and cs = idle_calls and fuel = 0] a b c
  show ?thesis by blast
qed

subsection \<open>C6\<close>

text \<open>
  Claim C6, as the code has it. \<open>removeEventListener\<close> (unregisterListener) takes the
  first record under the owner, in the order of registration, whose event is the given one
  and whose wrapped or original handler is the given value. If there is none (also when
  the owner has no entry), the call makes no call to the page, raises nothing and leaves
  the state as it is. If there is one, the call detaches its wrapped handler from the
  owner; when the detach returns, this one record is removed and nothing else changes
  (other records that match stay, other owners and other collections are untouched), and
  the entry of the owner is deleted when this was its last record and kept otherwise;
  when the detach throws, the exception reaches the caller and the state is as before.
\<close>

theorem removeEventListener_first_match:
  "(case find_listener ev h (tracked_listeners w el) of
      None \<Rightarrow> removeEventListener env el ev h w = (Inr (), w, [])
    | Some l \<Rightarrow>
        l \<in> set (tracked_listeners w el) \<and> matches ev h l \<and>
        (case throws env (RemoveEventListenerCall el ev (handler l) (options l)) of
           Some e \<Rightarrow>
             removeEventListener env el ev h w =
               (Inl e, w, [RemoveEventListenerCall el ev (handler l) (options l)])
         | None \<Rightarrow>
             result_of (removeEventListener env el ev h w) = Inr () \<and>
             effects_of (removeEventListener env el ev h w) =
               [RemoveEventListenerCall el ev (handler l) (options l)] \<and>
             (\<forall>el'. tracked_listeners (world_of (removeEventListener env el ev h w)) el' =
                (if el' = el then remove1 l (tracked_listeners w el)
                 else tracked_listeners w el')) \<and>
             (\<forall>el'. has_entry (world_of (removeEventListener env el ev h w)) el' =
                (if el' = el then remove1 l (tracked_listeners w el) \<noteq> []
                 else has_entry w el')) \<and>
             eventListeners (memoryManager (world_of (removeEventListener env el ev h w))) =
               (if remove1 l (tracked_listeners w el) = []
                then AList.delete el (eventListeners (memoryManager w))
                else AList.update el (remove1 l (tracked_listeners w el))
                       (eventListeners (memoryManager w))) \<and>
             world_of (removeEventListener env el ev h w) =
               w\<lparr>memoryManager := (memoryManager w)
                   \<lparr>eventListeners :=
                      eventListeners
                        (memoryManager (world_of (removeEventListener env el ev h w)))\<rparr>\<rparr>))"
proof (cases "find_listener ev h (tracked_listeners w el)")
  case None
  then show ?thesis by (simp add: removeEventListener_not_found)
next
  case found: (Some l)
  show ?thesis
  proof (cases "throws env (RemoveEventListenerCall el ev (handler l) (options l))")
    case None
    have e: "\<forall>el'. has_entry (world_of (removeEventListener env el ev h w)) el' =
                (if el' = el then remove1 l (tracked_listeners w el) \<noteq> []
                 else has_entry w el')"
      by (simp add: has_entry_def removeEventListener_entries [OF found None] update_conv'
          delete_conv')
    from removeEventListener_found [OF found None] removeEventListener_entries [OF found None]
      find_listener_Some [OF found] found None e
    show ?thesis by simp
  next
    case (Some e)
    from removeEventListener_throws [OF found Some] find_listener_Some [OF found] found Some
    show ?thesis by simp
  qed
qed

text \<open>
  With one handler registered twice the first call removes the first record and the owner
  keeps its entry; the second call removes the last record, and the entry of the owner is
  deleted.
\<close>

theorem removeEventListener_first_match_witness:
  "find_listener ''click'' (Fn 1) (tracked_listeners twice_registered (Element 1)) =
     Some \<lparr>event = ''click'', handler = Bound 0 (Fn 1), originalHandler = Fn 1,
           options = Options 0, element = Element 1\<rparr>
   \<and> throws example_env
        (RemoveEventListenerCall (Element 1) ''click'' (Bound 0 (Fn 1)) (Options 0)) = None
   \<and> effects_of (removeEventListener example_env (Element 1) ''click'' (Fn 1) twice_registered) =
       [RemoveEventListenerCall (Element 1) ''click'' (Bound 0 (Fn 1)) (Options 0)]
   \<and> tracked_listeners
        (world_of (removeEventListener example_env (Element 1) ''click'' (Fn 1) twice_registered))
        (Element 1) =
       [\<lparr>event = ''click'', handler = Bound 1 (Fn 1), originalHandler = Fn 1,
         options = Options 0, element = Element 1\<rparr>]
   \<and> has_entry
        (world_of (removeEventListener example_env (Element 1) ''click'' (Fn 1) twice_registered))
        (Element 1)
   \<and> \<not> has_entry
        (world_of (removeEventListener example_env (Element 1) ''click'' (Fn 1)
           (world_of (removeEventListener example_env (Element 1) ''click'' (Fn 1)
              twice_registered))))
        (Element 1)"
proof -
  let ?w1 = "world_of (removeEventListener example_env (Element 1) ''click'' (Fn 1)
               twice_registered)"
  have r: "tracked_listeners twice_registered (Element 1) =
       [\<lparr>event = ''click'', handler = Bound 0 (Fn 1), originalHandler = Fn 1,
         options = Options 0, element = Element 1\<rparr>,
        \<lparr>event = ''click'', handler = Bound 1 (Fn 1), originalHandler = Fn 1,
         options = Options 0, element = Element 1\<rparr>]"
    by (simp add: twice_registered_def tracked_listeners_def)
  have f: "find_listener ''click'' (Fn 1) (tracked_listeners twice_registered (Element 1)) =
     Some \<lparr>event = ''click'', handler = Bound 0 (Fn 1), originalHandler = Fn 1,
           options = Options 0, element = Element 1\<rparr>"
    unfolding r by (simp add: find_listener_def)
  have t: "throws example_env c = None" for c
    by (simp add: example_env_def)
  from removeEventListener_first_match
         [where ev = "''click''" and h = "Fn 1" and w = twice_registered
            and el = "Element 1" and env = example_env] f t r
  have one: "effects_of (removeEventListener example_env (Element 1) ''click'' (Fn 1)
                 twice_registered) =
       [RemoveEventListenerCall (Element 1) ''click'' (Bound 0 (Fn 1)) (Options 0)]
     \<and> tracked_listeners ?w1 (Element 1) =
       [\<lparr>event = ''click'', handler = Bound 1 (Fn 1), originalHandler = Fn 1,
         options = Options 0, element = Element 1\<rparr>]
     \<and> has_entry ?w1 (Element 1)"
    by simp
  then have r2: "tracked_listeners ?w1 (Element 1) =
       [\<lparr>event = ''click'', handler = Bound 1 (Fn 1), originalHandler = Fn 1,
         options = Options 0, element = Element 1\<rparr>]"
    by simp
  have f2: "find_listener ''click'' (Fn 1) (tracked_listeners ?w1 (Element 1)) =
     Some \<lparr>event = ''click'', handler = Bound 1 (Fn 1), originalHandler = Fn 1,
           options = Options 0, element = Element 1\<rparr>"
    unfolding r2 by (simp add: find_listener_def)
  from removeEventListener_first_match
         [where ev = "''click''" and h = "Fn 1" and w = ?w1
            and el = "Element 1" and env = example_env] f2 t r2
  have two: "\<not> has_entry
        (world_of (removeEventListener example_env (Element 1) ''click'' (Fn 1) ?w1))
        (Element 1)"
    by simp
  from f t one two show ?thesis by simp
qed

text \<open>
  Claim C6 as it is written fails. With one handler registered twice for one event on one
  owner two records match; the call removes the first, and a record of the owner whose
  event and original handler are the given ones is still tracked. And when the detach of
  the owner throws, the call raises the exception and removes nothing.
\<close>

theorem removeEventListener_unique_counterexample:
  "find_listener ''click'' (Fn 1)
     (tracked_listeners
        (world_of (removeEventListener example_env (Element 1) ''click'' (Fn 1) twice_registered))
        (Element 1)) =
     Some \<lparr>event = ''click'', handler = Bound 1 (Fn 1), originalHandler = Fn 1,
           options = Options 0, element = Element 1\<rparr>
   \<and> removeEventListener failing_env (Element 1) ''click'' (Fn 1) twice_registered =
       (Inl (Error ''detach failed''), twice_registered,
        [RemoveEventListenerCall (Element 1) ''click'' (Bound 0 (Fn 1)) (Options 0)])"
  by (simp add: twice_registered_def tracked_listeners_def find_listener_def
      removeEventListener_def world_of_def example_env_def failing_env_def Let_def)

subsection \<open>C7\<close>

text \<open>
  Claim C7. \<open>getMemoryUsage\<close> (getUsageSnapshot) changes nothing and makes no call to
  the page, on any state. On every state that a sequence of calls, releases and firing
  timers reaches from a new registry its five counts are the number of owners with an
  entry, of observers, of one-shot timers, of repeating timers and of cleanup callbacks
  that are tracked.
\<close>

theorem getMemoryUsage_counts:
  "world_of (getMemoryUsage w) = w \<and> effects_of (getMemoryUsage w) = []
   \<and> (run fuel env cs initial_world = Some w' \<longrightarrow>
      getMemoryUsage w' =
       (Inr \<lparr>usage_eventListeners = card (fst ` set (eventListeners (memoryManager w'))),
             usage_observers = card (set (observers (memoryManager w'))),
             usage_timeouts = card (set (timeouts (memoryManager w'))),
             usage_intervals = card (set (intervals (memoryManager w'))),
             usage_cleanupCallbacks = card (set (cleanupCallbacks (memoryManager w')))\<rparr>,
        w', []))"
proof -
  have "getMemoryUsage w' =
       (Inr \<lparr>usage_eventListeners = card (fst ` set (eventListeners (memoryManager w'))),
             usage_observers = card (set (observers (memoryManager w'))),
             usage_timeouts = card (set (timeouts (memoryManager w'))),
             usage_intervals = card (set (intervals (memoryManager w'))),
             usage_cleanupCallbacks = card (set (cleanupCallbacks (memoryManager w')))\<rparr>,
        w', [])"
    if "run fuel env cs initial_world = Some w'"
    using no_repetition_run [OF no_repetition_initial that]
    by (simp add: getMemoryUsage_def no_repetition_def Let_def distinct_card
        flip: set_map)
  then show ?thesis
    by (simp add: getMemoryUsage_def Let_def world_of_def effects_of_def)
qed

text \<open>
  Three listeners on two owners, one observer, two one-shot timers, one repeating timer and
  one cleanup callback are counted as 2, 1, 2, 1 and 1; after \<open>cleanupAll\<close> all counts
  are 0.
\<close>

theorem getMemoryUsage_counts_witness:
  "run 20 failing_env example_calls initial_world = Some example_world
   \<and> getMemoryUsage example_world =
     (Inr \<lparr>usage_eventListeners = 2, usage_observers = 1, usage_timeouts = 2,
           usage_intervals = 1, usage_cleanupCallbacks = 1\<rparr>,
      example_world, [])
   \<and> (\<exists>w'. run 20 failing_env (example_calls @ [CleanupAll]) initial_world = Some w'
        \<and> result_of (getMemoryUsage w') =
            Inr \<lparr>usage_eventListeners = 0, usage_observers = 0, usage_timeouts = 0,
                 usage_intervals = 0, usage_cleanupCallbacks = 0\<rparr>)"
proof -
  have r: "run 20 failing_env example_calls initial_world = Some example_world"
    by (rule example_world_run)
  from getMemoryUsage_counts [where w = example_world and env = failing_env
        and cs = example_calls and fuel = 20 and w' = example_world] r
  have one: "getMemoryUsage example_world =
     (Inr \<lparr>usage_eventListeners = 2, usage_observers = 1, usage_timeouts = 2,
           usage_intervals = 1, usage_cleanupCallbacks = 1\<rparr>,
      example_world, [])"
    by (simp add: example_world_def)
  have a: "no_reentry failing_env (memoryManager example_world)"
    by (simp add: no_reentry_def failing_env_def)
  have b: "distinct (owners example_world)"
    by (simp add: owners_def example_world_def)
  have c: "release_size (memoryManager example_world) \<le> 20"
    by (simp add: release_size_def release_order_def example_world_def)
  from cleanupAll_quiet [OF a b c] obtain w1 es where
    q: "cleanupAll 20 failing_env example_world = Some (Inr (), w1, es)"
    and m: "memoryManager w1 = emptied (memoryManager example_world)"
    by blast
  have s: "run 20 failing_env (example_calls @ [CleanupAll]) initial_world = Some w1"
    using r q by (simp add: run_append)
  from getMemoryUsage_counts [where w = w1 and env = failing_env
        and cs = "example_calls @ [CleanupAll]" and fuel = 20 and w' = w1] s m
  have two: "result_of (getMemoryUsage w1) =
            Inr \<lparr>usage_eventListeners = 0, usage_observers = 0, usage_timeouts = 0,
                 usage_intervals = 0, usage_cleanupCallbacks = 0\<rparr>"
    by (simp add: result_of_def emptied_def)
  from r one s two show ?thesis by blast
qed

subsection \<open>C8\<close>

text \<open>
  Claim C8. \<open>handleScrapingError\<close> makes one call of \<open>sendMessage\<close>, with a report that
  holds the tag \<open>contentScriptError\<close>, the message, the time in milliseconds and the
  address of the page. If that call throws, the exception is caught and written with
  \<open>console.error\<close>. In both cases \<open>handleScrapingError\<close> returns without an exception.
\<close>

theorem handleScrapingError_report:
  "fst (handleScrapingError env message) = Inr ()
   \<and> snd (handleScrapingError env message) =
       SendMessageCall \<lparr>action = ''contentScriptError'', error = message,
                        timestamp = date_now env, url = location_href env\<rparr>
       # (case throws env (SendMessageCall \<lparr>action = ''contentScriptError'', error = message,
                        timestamp = date_now env, url = location_href env\<rparr>) of
            None \<Rightarrow> []
          | Some e \<Rightarrow> [ConsoleError ''Failed to send error to background:'' e])"
  by (simp add: handleScrapingError_def Let_def split: option.splits)

theorem handleScrapingError_report_witness:
  "handleScrapingError failing_env ''Global error: boom'' =
     (Inr (),
      [SendMessageCall \<lparr>action = ''contentScriptError'', error = ''Global error: boom'',
                        timestamp = 1700000000000, url = ''https://example.org/gallery''\<rparr>,
       ConsoleError ''Failed to send error to background:''
         (Error ''Extension context invalidated.'')])
   \<and> handleScrapingError example_env ''Global error: boom'' =
     (Inr (),
      [SendMessageCall \<lparr>action = ''contentScriptError'', error = ''Global error: boom'',
                        timestamp = 1700000000000, url = ''https://example.org/gallery''\<rparr>])"
  using handleScrapingError_report [where env = failing_env and message = "''Global error: boom''"]
    handleScrapingError_report [where env = example_env and message = "''Global error: boom''"]
  by (simp add: failing_env_def example_env_def prod_eq_iff)

subsection \<open>C9\<close>

text \<open>
  Claim C9. For a handle that is not in \<open>timeouts\<close>, \<open>clearTimeout\<close> (cancelOnce)
  makes no call to the page, raises nothing and leaves the whole state as it is; the same
  holds for \<open>clearInterval\<close> (cancelRepeating) and a handle that is not in \<open>intervals\<close>.
\<close>

theorem clear_untracked_noop:
  "(timeoutId \<notin> set (timeouts (memoryManager w)) \<longrightarrow>
      clearTimeout env timeoutId w = (Inr (), w, []))
   \<and> (intervalId \<notin> set (intervals (memoryManager w)) \<longrightarrow>
      clearInterval env intervalId w = (Inr (), w, []))"
  by (simp add: clearTimeout_def clearInterval_def)

theorem clear_untracked_noop_witness:
  "1 \<notin> set (timeouts (memoryManager fired_world))
   \<and> 42 \<notin> set (intervals (memoryManager fired_world))
   \<and> clearTimeout failing_env 1 fired_world = (Inr (), fired_world, [])
   \<and> clearInterval failing_env 42 fired_world = (Inr (), fired_world, [])"
  using clear_untracked_noop [where timeoutId = 1 and w = fired_world and intervalId = 42
      and env = failing_env]
  by (simp add: fired_world_def MemoryManager_new_def)

subsection \<open>C10\<close>

text \<open>
  Claim C10. The listener for the \<open>error\<close> event of \<open>window\<close> reads
  \<open>event.error.message\<close> without a test: when \<open>event.error\<close> is \<open>null\<close> or
  \<open>undefined\<close> the listener throws a \<open>TypeError\<close> and makes no call at all, so no
  report is sent.
\<close>

theorem error_listener_null:
  "event_error = JNull \<or> event_error = JUndefined \<Longrightarrow>
   (\<exists>msg. fst (window_error_listener env event_error) = Inl (TypeError msg))
   \<and> snd (window_error_listener env event_error) = []"
  by (auto simp: window_error_listener_def log_empty)

theorem error_listener_null_witness:
  "(JNull = JNull \<or> JNull = JUndefined)
   \<and> window_error_listener example_env JNull =
       (Inl (TypeError ''Cannot read properties of null (reading message)''), [])"
  using error_listener_null [where event_error = JNull and env = example_env]
  by (simp add: window_error_listener_def log_empty)

end
